theory Spec2Isabelle
  imports Main "HOL-Library.Sublist"
begin

section \<open>JavaScript values\<close>

text \<open>
  The relay (server.js) and the browser client (class DrawingApp) exchange JSON text.
  What \<open>JSON.parse\<close> returns is a value of the following type; \<open>JUndefined\<close> is what
  reading a missing property gives. An object is its list of key/value pairs. Numbers are
  integers here: the only number the relay computes is \<open>clients.size\<close>, and the numbers
  inside a drawing event are stored and replayed without being read.
\<close>

datatype jsval =
    JUndefined
  | JNull
  | JBool bool
  | JNum int
  | JStr string
  | JArr "jsval list"
  | JObj "(string \<times> jsval) list"

datatype error = SyntaxError | TypeError | SendError

text \<open>
  Property access \<open>v.k\<close> for the keys the program reads (\<open>type\<close>, \<open>data\<close>, \<open>count\<close>,
  \<open>clientId\<close>, \<open>fromX\<close>): on \<open>undefined\<close> and \<open>null\<close> it throws a TypeError, on an object
  it is the property or \<open>undefined\<close>, on every other value it is \<open>undefined\<close>.
\<close>

fun get :: "jsval \<Rightarrow> string \<Rightarrow> error + jsval" where
  "get JUndefined k = Inl TypeError"
| "get JNull k = Inl TypeError"
| "get (JObj kvs) k = Inr (case map_of kvs k of None \<Rightarrow> JUndefined | Some v \<Rightarrow> v)"
| "get v k = Inr JUndefined"

text \<open>Truthiness, as \<open>!v\<close> and \<open>||\<close> read it.\<close>

fun truthy :: "jsval \<Rightarrow> bool" where
  "truthy JUndefined = False"
| "truthy JNull = False"
| "truthy (JBool b) = b"
| "truthy (JNum n) = (n \<noteq> 0)"
| "truthy (JStr s) = (s \<noteq> [])"
| "truthy (JArr xs) = True"
| "truthy (JObj kvs) = True"

section \<open>The relay: server.js\<close>

subsection \<open>State and collaborators\<close>

text \<open>
  A connection is the identity of a WebSocket object. The relay's own state is the two
  globals \<open>clients\<close> (a JavaScript Set, which iterates in insertion order: a list without
  duplicates) and \<open>drawingHistory\<close>. The third field, \<open>trace\<close>, records in order every call
  the relay makes on its collaborators: \<open>JSON.stringify(v)\<close> and \<open>c.send(m)\<close>. Console
  output is not modelled.

  The collaborators are not part of the repository and are parameters of the model, in
  the record \<open>world\<close>: what \<open>JSON.parse\<close> returns for a text (\<open>None\<close> when it throws a
  SyntaxError), what \<open>JSON.stringify\<close> returns, the \<open>readyState\<close> of every socket, and
  whether the transport fails to deliver what is handed to it for a socket. The type \<open>'f\<close>
  is the type of serialised frames.

  \<open>send\<close> is the method of the \<open>ws\<close> library. It throws only when the socket is still
  CONNECTING; in every other state it returns. On an OPEN socket it hands the frame to
  the transport, and a failure to deliver it is reported later, through the callback or
  the \<open>error\<close> event, never by an exception of \<open>send\<close>; on a CLOSING or CLOSED socket the
  frame is dropped.
\<close>

type_synonym conn = nat

datatype ready_state = CONNECTING | OPEN | CLOSING | CLOSED

datatype 'f effect = Stringify jsval | Send conn 'f

record 'f world =
  JSON_parse :: "string \<Rightarrow> jsval option"
  JSON_stringify :: "jsval \<Rightarrow> 'f"
  readyState :: "conn \<Rightarrow> ready_state"
  delivery_fails :: "conn \<Rightarrow> bool"

record 'f server =
  clients :: "conn list"
  drawingHistory :: "jsval list"
  trace :: "'f effect list"

definition MAX_HISTORY :: nat where
  "MAX_HISTORY = 1000"

definition initial :: "'f server" where
  "initial = \<lparr>clients = [], drawingHistory = [], trace = []\<rparr>"

text \<open>\<open>Set.add\<close>, \<open>Set.delete\<close> and \<open>Set.size\<close> on the insertion-ordered list.\<close>

definition Set_add :: "conn \<Rightarrow> conn list \<Rightarrow> conn list" where
  "Set_add c cs = (if c \<in> set cs then cs else cs @ [c])"

definition Set_delete :: "conn \<Rightarrow> conn list \<Rightarrow> conn list" where
  "Set_delete c cs = removeAll c cs"

definition Set_size :: "conn list \<Rightarrow> nat" where
  "Set_size cs = length cs"

text \<open>\<open>JSON.stringify(v)\<close> and \<open>c.send(m)\<close>, each recorded in the trace when it is called.\<close>

definition stringify :: "'f world \<Rightarrow> jsval \<Rightarrow> 'f server \<Rightarrow> 'f \<times> 'f server" where
  "stringify W v s = (JSON_stringify W v, s\<lparr>trace := trace s @ [Stringify v]\<rparr>)"

definition ws_send :: "'f world \<Rightarrow> conn \<Rightarrow> 'f \<Rightarrow> 'f server \<Rightarrow> error option \<times> 'f server" where
  "ws_send W c m s =
     (let s' = s\<lparr>trace := trace s @ [Send c m]\<rparr>
      in if readyState W c = CONNECTING then (Some SendError, s') else (None, s'))"

subsection \<open>Broadcasting\<close>

text \<open>
  The body of both broadcast functions,
  \<^verbatim>\<open>clients.forEach(client => { if (client.readyState === WebSocket.OPEN) client.send(message); })\<close>.
  Nothing catches an exception of \<open>send\<close> here: it would end the loop and leave the
  function.
\<close>

fun forEach_send :: "'f world \<Rightarrow> 'f \<Rightarrow> conn list \<Rightarrow> 'f server \<Rightarrow> error option \<times> 'f server" where
  "forEach_send W message [] s = (None, s)"
| "forEach_send W message (client # rest) s =
     (if readyState W client = OPEN then
        (case ws_send W client message s of
           (Some e, s') \<Rightarrow> (Some e, s')
         | (None, s') \<Rightarrow> forEach_send W message rest s')
      else forEach_send W message rest s)"

definition broadcastToAll :: "'f world \<Rightarrow> jsval \<Rightarrow> 'f server \<Rightarrow> error option \<times> 'f server" where
  "broadcastToAll W data s =
     (case stringify W data s of (message, s1) \<Rightarrow> forEach_send W message (clients s1) s1)"

definition userCount_msg :: "nat \<Rightarrow> jsval" where
  "userCount_msg n = JObj [(''type'', JStr ''userCount''), (''count'', JNum (int n))]"

definition broadcastUserCount :: "'f world \<Rightarrow> 'f server \<Rightarrow> error option \<times> 'f server" where
  "broadcastUserCount W s =
     (case stringify W (userCount_msg (Set_size (clients s))) s of
        (message, s1) \<Rightarrow> forEach_send W message (clients s1) s1)"

subsection \<open>The handlers\<close>

definition history_msg :: "jsval list \<Rightarrow> jsval" where
  "history_msg h = JObj [(''type'', JStr ''history''), (''data'', JArr h)]"

definition pong_msg :: jsval where
  "pong_msg = JObj [(''type'', JStr ''pong'')]"

text \<open>
  \<^verbatim>\<open>wss.on('connection', (ws) => ...)\<close>: add the socket, send the history when there is
  some, broadcast the user count. The result carries the exception that leaves the
  handler, if any.
\<close>

definition on_connection :: "'f world \<Rightarrow> conn \<Rightarrow> 'f server \<Rightarrow> error option \<times> 'f server" where
  "on_connection W ws s =
     (let s1 = s\<lparr>clients := Set_add ws (clients s)\<rparr>
      in if length (drawingHistory s1) > 0 then
           (case stringify W (history_msg (drawingHistory s1)) s1 of
              (m, s2) \<Rightarrow>
                (case ws_send W ws m s2 of
                   (Some e, s3) \<Rightarrow> (Some e, s3)
                 | (None, s3) \<Rightarrow> broadcastUserCount W s3))
         else broadcastUserCount W s1)"

text \<open>
  The \<open>try\<close> block of \<^verbatim>\<open>ws.on('message', ...)\<close>, then the handler itself, whose \<open>catch\<close>
  swallows the exception and keeps the state reached when it was thrown.
\<close>

definition message_try :: "'f world \<Rightarrow> conn \<Rightarrow> string \<Rightarrow> 'f server \<Rightarrow> error option \<times> 'f server" where
  "message_try W ws message s =
     (case JSON_parse W message of
        None \<Rightarrow> (Some SyntaxError, s)
      | Some data \<Rightarrow>
          (case get data ''type'' of
             Inl e \<Rightarrow> (Some e, s)
           | Inr t \<Rightarrow>
               if t = JStr ''draw'' then
                 (case get data ''data'' of
                    Inl e \<Rightarrow> (Some e, s)
                  | Inr d \<Rightarrow>
                      (let h = drawingHistory s @ [d];
                           h' = (if length h > MAX_HISTORY then tl h else h)
                       in broadcastToAll W data (s\<lparr>drawingHistory := h'\<rparr>)))
               else if t = JStr ''clear'' then
                 broadcastToAll W data (s\<lparr>drawingHistory := []\<rparr>)
               else if t = JStr ''ping'' then
                 (case stringify W pong_msg s of (m, s1) \<Rightarrow> ws_send W ws m s1)
               else (None, s)))"

definition on_message :: "'f world \<Rightarrow> conn \<Rightarrow> string \<Rightarrow> 'f server \<Rightarrow> 'f server" where
  "on_message W ws message s = snd (message_try W ws message s)"

text \<open>\<^verbatim>\<open>ws.on('close', ...)\<close> and \<^verbatim>\<open>ws.on('error', ...)\<close> (which only logs).\<close>

definition on_close :: "'f world \<Rightarrow> conn \<Rightarrow> 'f server \<Rightarrow> error option \<times> 'f server" where
  "on_close W ws s = broadcastUserCount W (s\<lparr>clients := Set_delete ws (clients s)\<rparr>)"

definition on_error :: "'f world \<Rightarrow> conn \<Rightarrow> 'f server \<Rightarrow> 'f server" where
  "on_error W ws s = s"

subsection \<open>Runs\<close>

text \<open>
  Node runs one handler at a time, to its end. A run of the relay is therefore a sequence
  of events, each with the state of the collaborators at that moment. An exception that
  leaves a handler is not caught by anything in server.js and ends the process: the run
  stops there.
\<close>

datatype event = Connection conn | Message conn string | Close conn | Error conn

fun step :: "'f world \<Rightarrow> event \<Rightarrow> 'f server \<Rightarrow> error option \<times> 'f server" where
  "step W (Connection ws) s = on_connection W ws s"
| "step W (Message ws m) s = (None, on_message W ws m s)"
| "step W (Close ws) s = on_close W ws s"
| "step W (Error ws) s = (None, on_error W ws s)"

fun run :: "('f world \<times> event) list \<Rightarrow> 'f server \<Rightarrow> error option \<times> 'f server" where
  "run [] s = (None, s)"
| "run ((W, ev) # evs) s =
     (case step W ev s of
        (Some e, s') \<Rightarrow> (Some e, s')
      | (None, s') \<Rightarrow> run evs s')"

section \<open>The browser client: class DrawingApp\<close>

text \<open>
  Of the client, the state that \<open>handleMessage\<close> reads and writes: its own \<open>clientId\<close>,
  the canvas as the list of the segments stroked since it was last cleared (the argument
  of each \<open>drawLine\<close> call that reached \<open>stroke\<close>), and the count shown in the page.
\<close>

record client =
  clientId :: string
  canvas :: "jsval list"
  user_count :: jsval

text \<open>\<open>drawLine(data)\<close> reads \<open>data.fromX\<close> first, which throws when \<open>data\<close> is null or undefined.\<close>

definition drawLine :: "jsval \<Rightarrow> client \<Rightarrow> error option \<times> client" where
  "drawLine data cl =
     (case get data ''fromX'' of
        Inl e \<Rightarrow> (Some e, cl)
      | Inr x \<Rightarrow> (None, cl\<lparr>canvas := canvas cl @ [data]\<rparr>))"

definition clearCanvas :: "client \<Rightarrow> client" where
  "clearCanvas cl = cl\<lparr>canvas := []\<rparr>"

fun forEach_drawLine :: "jsval list \<Rightarrow> client \<Rightarrow> error option \<times> client" where
  "forEach_drawLine [] cl = (None, cl)"
| "forEach_drawLine (drawData # rest) cl =
     (case drawLine drawData cl of
        (Some e, cl') \<Rightarrow> (Some e, cl')
      | (None, cl') \<Rightarrow> forEach_drawLine rest cl')"

definition handleMessage :: "jsval \<Rightarrow> client \<Rightarrow> error option \<times> client" where
  "handleMessage message cl =
     (case get message ''type'' of
        Inl e \<Rightarrow> (Some e, cl)
      | Inr t \<Rightarrow>
          if t = JStr ''draw'' then
            (case get message ''data'' of
               Inl e \<Rightarrow> (Some e, cl)
             | Inr d \<Rightarrow>
                 (case get d ''clientId'' of
                    Inl e \<Rightarrow> (Some e, cl)
                  | Inr cid \<Rightarrow>
                      if \<not> truthy cid \<or> cid \<noteq> JStr (clientId cl) then drawLine d cl
                      else (None, cl)))
          else if t = JStr ''clear'' then (None, clearCanvas cl)
          else if t = JStr ''history'' then
            (case get message ''data'' of
               Inl e \<Rightarrow> (Some e, cl)
             | Inr d \<Rightarrow>
                 (case d of
                    JArr ds \<Rightarrow> forEach_drawLine ds cl
                  | JUndefined \<Rightarrow> (Some TypeError, cl)
                  | JNull \<Rightarrow> (Some TypeError, cl)
                  | JBool b \<Rightarrow> (Some TypeError, cl)
                  | JNum n \<Rightarrow> (Some TypeError, cl)
                  | JStr x \<Rightarrow> (Some TypeError, cl)
                  | JObj kvs \<Rightarrow> (Some TypeError, cl)))
          else if t = JStr ''userCount'' then
            (case get message ''count'' of
               Inl e \<Rightarrow> (Some e, cl)
             | Inr n \<Rightarrow> (None, cl\<lparr>user_count := n\<rparr>))
          else if t = JStr ''pong'' then (None, cl)
          else (None, cl))"

section \<open>Notions used to state the properties\<close>

text \<open>
  A socket that reports open, and the trace of one broadcast of the value \<open>v\<close> over the
  registry \<open>cs\<close>: the value is serialised, then \<open>send\<close> is called with the text on the
  open members, in registry order.
\<close>

definition is_open :: "'f world \<Rightarrow> conn \<Rightarrow> bool" where
  "is_open W c = (readyState W c = OPEN)"

definition broadcast_trace :: "'f world \<Rightarrow> jsval \<Rightarrow> conn list \<Rightarrow> 'f effect list" where
  "broadcast_trace W v cs =
     Stringify v # map (\<lambda>c. Send c (JSON_stringify W v)) (filter (is_open W) cs)"

text \<open>
  Readings of a trace: the values serialised, in order, and the frames handed to \<open>send\<close>
  on one socket, in order. \<open>emitted s s'\<close> is what a handler that took the state from
  \<open>s\<close> to \<open>s'\<close> added to the trace.
\<close>

fun stringified :: "'f effect list \<Rightarrow> jsval list" where
  "stringified [] = []"
| "stringified (Stringify v # es) = v # stringified es"
| "stringified (Send c f # es) = stringified es"

fun frames_to :: "conn \<Rightarrow> 'f effect list \<Rightarrow> 'f list" where
  "frames_to c [] = []"
| "frames_to c (Stringify v # es) = frames_to c es"
| "frames_to c (Send c' f # es) = (if c' = c then f # frames_to c es else frames_to c es)"

definition emitted :: "'f server \<Rightarrow> 'f server \<Rightarrow> 'f effect list" where
  "emitted s s' = drop (length (trace s)) (trace s')"

text \<open>
  What the peer of socket \<open>c\<close> receives of the calls in a trace: the frames handed to
  \<open>send\<close> on \<open>c\<close>, when \<open>c\<close> is open and the transport does not fail for it.
\<close>

definition received :: "'f world \<Rightarrow> conn \<Rightarrow> 'f effect list \<Rightarrow> 'f list" where
  "received W c es =
     (if readyState W c = OPEN \<and> \<not> delivery_fails W c then frames_to c es else [])"

text \<open>
  The discriminant of an inbound text: \<open>None\<close> when \<open>JSON.parse\<close> throws or reading
  \<open>.type\<close> of the parsed value throws, otherwise the value of \<open>.type\<close>.
\<close>

definition discriminant :: "'f world \<Rightarrow> string \<Rightarrow> jsval option" where
  "discriminant W m =
     (case JSON_parse W m of
        None \<Rightarrow> None
      | Some data \<Rightarrow> (case get data ''type'' of Inl e \<Rightarrow> None | Inr t \<Rightarrow> Some t))"

text \<open>The event that a draw message carries, \<open>data.data\<close>; \<open>None\<close> for everything else.\<close>

fun draw_event :: "'f world \<times> event \<Rightarrow> jsval option" where
  "draw_event (W, Message ws m) =
     (if discriminant W m = Some (JStr ''draw'') then
        (case JSON_parse W m of
           None \<Rightarrow> None
         | Some data \<Rightarrow> (case get data ''data'' of Inl e \<Rightarrow> None | Inr d \<Rightarrow> Some d))
      else None)"
| "draw_event (W, Connection ws) = None"
| "draw_event (W, Close ws) = None"
| "draw_event (W, Error ws) = None"

fun draws :: "('f world \<times> event) list \<Rightarrow> jsval list" where
  "draws [] = []"
| "draws (x # xs) = (case draw_event x of None \<Rightarrow> draws xs | Some d \<Rightarrow> d # draws xs)"

definition is_draw :: "'f world \<times> event \<Rightarrow> bool" where
  "is_draw x = (draw_event x \<noteq> None)"

text \<open>
  An inbound text that is not a message the relay knows: it does not parse, or its
  discriminant cannot be read, or the discriminant is none of \<open>draw\<close>, \<open>clear\<close>, \<open>ping\<close>.
\<close>

definition unrecognised :: "'f world \<Rightarrow> string \<Rightarrow> bool" where
  "unrecognised W m =
     (case discriminant W m of
        None \<Rightarrow> True
      | Some t \<Rightarrow> t \<noteq> JStr ''draw'' \<and> t \<noteq> JStr ''clear'' \<and> t \<noteq> JStr ''ping'')"

subsection \<open>A concrete world\<close>

text \<open>
  A world for the examples: frames are the values themselves (the serialiser is the
  identity), a few texts parse, sockets 1 to 4 are open, sends succeed.
\<close>

definition seg :: "int \<Rightarrow> string \<Rightarrow> jsval" where
  "seg x cid = JObj [(''fromX'', JNum x), (''fromY'', JNum 0), (''toX'', JNum (x + 1)),
     (''toY'', JNum 1), (''color'', JStr ''#000000''), (''size'', JNum 3),
     (''timestamp'', JNum 0), (''clientId'', JStr cid)]"

definition draw_msg :: "jsval \<Rightarrow> jsval" where
  "draw_msg e = JObj [(''type'', JStr ''draw''), (''data'', e)]"

definition parse0 :: "string \<Rightarrow> jsval option" where
  "parse0 m =
     (if m = ''draw-1'' then Some (draw_msg (seg 1 ''a''))
      else if m = ''draw-2'' then Some (draw_msg (seg 2 ''b''))
      else if m = ''draw-nothing'' then Some (JObj [(''type'', JStr ''draw'')])
      else if m = ''clear'' then Some (JObj [(''type'', JStr ''clear'')])
      else if m = ''ping'' then Some (JObj [(''type'', JStr ''ping'')])
      else if m = ''null'' then Some JNull
      else if m = ''undo'' then Some (JObj [(''type'', JStr ''undo'')])
      else None)"

definition W0 :: "jsval world" where
  "W0 = \<lparr>JSON_parse = parse0, JSON_stringify = (\<lambda>v. v),
          readyState = (\<lambda>c. if 1 \<le> c \<and> c \<le> 4 then OPEN else CLOSED),
          delivery_fails = (\<lambda>c. False)\<rparr>"

text \<open>The same world, except that the transport fails to deliver on socket 1.\<close>

definition W1 :: "jsval world" where
  "W1 = W0\<lparr>delivery_fails := (\<lambda>c. c = 1)\<rparr>"

text \<open>Two draw messages, from sockets 1 and 2.\<close>

definition evs1 :: "(jsval world \<times> event) list" where
  "evs1 = [(W0, Message 1 ''draw-1''), (W0, Message 2 ''draw-2'')]"

text \<open>
  A state with two registered sockets and one stored event, and one with the same
  registry whose history is full.
\<close>

definition s_full :: "jsval server" where
  "s_full = \<lparr>clients = [1, 2], drawingHistory = replicate 1000 (seg 0 ''c''), trace = []\<rparr>"


definition s12 :: "jsval server" where
  "s12 = \<lparr>clients = [1, 2], drawingHistory = [seg 1 ''a''], trace = []\<rparr>"

text \<open>
  The world \<open>W1\<close>, except that socket 3 is closing; and a state with sockets 1, 2 and 3
  registered.
\<close>

definition W3 :: "jsval world" where
  "W3 = W1\<lparr>readyState := (\<lambda>c. if c = 3 then CLOSING else OPEN)\<rparr>"

definition s123 :: "jsval server" where
  "s123 = \<lparr>clients = [1, 2, 3], drawingHistory = [seg 1 ''a''], trace = []\<rparr>"

text \<open>
  Three sockets connect, socket 1 draws, socket 2 clears.
\<close>

definition evs7 :: "(jsval world \<times> event) list" where
  "evs7 = [(W0, Connection 1), (W0, Connection 2), (W0, Connection 3),
           (W0, Message 1 ''draw-1''), (W0, Message 2 ''clear'')]"


section \<open>Properties of the relay\<close>

subsection \<open>What a broadcast does\<close>

lemma forEach_send_eq:
  "forEach_send W m cs s =
     (None, s\<lparr>trace := trace s @ map (\<lambda>c. Send c m) (filter (is_open W) cs)\<rparr>)"
  by (induction cs arbitrary: s) (auto simp: ws_send_def is_open_def Let_def)

lemma broadcastToAll_eq:
  "broadcastToAll W data s =
     (None, s\<lparr>trace := trace s @ broadcast_trace W data (clients s)\<rparr>)"
  by (simp add: broadcastToAll_def stringify_def forEach_send_eq broadcast_trace_def)

lemma broadcastUserCount_eq:
  "broadcastUserCount W s =
     (None,
      s\<lparr>trace := trace s @ broadcast_trace W (userCount_msg (length (clients s))) (clients s)\<rparr>)"
  by (simp add: broadcastUserCount_def stringify_def forEach_send_eq broadcast_trace_def Set_size_def)

lemma get_data_total: "get v k = Inr t \<Longrightarrow> \<exists>d. get v k' = Inr d"
  by (cases v) auto

lemma stringified_sends [simp]: "stringified (map (\<lambda>c. Send c f) cs) = []"
  by (induction cs) auto

lemma stringified_append [simp]: "stringified (xs @ ys) = stringified xs @ stringified ys"
  by (induction xs rule: stringified.induct) auto

lemma stringified_broadcast_trace [simp]: "stringified (broadcast_trace W v cs) = [v]"
  by (simp add: broadcast_trace_def)

lemma frames_to_sends:
  "distinct cs \<Longrightarrow> frames_to c (map (\<lambda>c'. Send c' f) cs) = (if c \<in> set cs then [f] else [])"
  by (induction cs) auto

lemma frames_to_broadcast_trace:
  "distinct cs \<Longrightarrow>
     frames_to c (broadcast_trace W v cs) =
       (if c \<in> set cs \<and> is_open W c then [JSON_stringify W v] else [])"
  using frames_to_sends [of "filter (is_open W) cs" c "JSON_stringify W v"]
  by (simp add: broadcast_trace_def)

lemma is_open_delivery [simp]: "is_open (W\<lparr>delivery_fails := F\<rparr>) = is_open W"
  by (simp add: is_open_def fun_eq_iff)

lemma Send_in_broadcast_trace:
  "Send c f \<in> set (broadcast_trace W v cs) \<longleftrightarrow>
     c \<in> set cs \<and> is_open W c \<and> f = JSON_stringify W v"
  by (auto simp: broadcast_trace_def)

text \<open>
  Claim C3. One broadcast serialises the message exactly once, then calls \<open>send\<close> with
  that text exactly on the members of the registry that report open, in registry order;
  a member that is not open is passed over and the loop goes on. Nothing is raised to the
  caller. A failure to deliver to one member changes nothing for the others: the calls
  are the same whichever deliveries fail, and every open member whose own delivery
  does not fail receives the message, once.
\<close>

theorem broadcast_reaches_open_members:
  "broadcastToAll W data s =
     (None, s\<lparr>trace := trace s @ broadcast_trace W data (clients s)\<rparr>)
   \<and> stringified (broadcast_trace W data (clients s)) = [data]
   \<and> broadcast_trace W data (clients s) =
       Stringify data #
       map (\<lambda>c. Send c (JSON_stringify W data))
         (filter (\<lambda>c. readyState W c = OPEN) (clients s))
   \<and> broadcastToAll (W\<lparr>delivery_fails := F\<rparr>) data s = broadcastToAll W data s
   \<and> (distinct (clients s) \<longrightarrow>
        frames_to c (broadcast_trace W data (clients s)) =
          (if c \<in> set (clients s) \<and> readyState W c = OPEN then [JSON_stringify W data] else [])
      \<and> received W c (broadcast_trace W data (clients s)) =
          (if c \<in> set (clients s) \<and> readyState W c = OPEN \<and> \<not> delivery_fails W c
           then [JSON_stringify W data] else []))"
proof -
  have o: "is_open W = (\<lambda>c. readyState W c = OPEN)"
    by (simp add: is_open_def fun_eq_iff)
  have i: "broadcast_trace (W\<lparr>delivery_fails := F\<rparr>) data (clients s) =
      broadcast_trace W data (clients s)"
    by (simp add: broadcast_trace_def)
  show ?thesis
    using frames_to_broadcast_trace [of "clients s" c W data]
    by (auto simp: broadcastToAll_eq i received_def broadcast_trace_def o)
qed

theorem broadcast_reaches_open_members_witness:
  "distinct (clients s123) \<and> delivery_fails W3 1 \<and> readyState W3 3 = CLOSING
   \<and> broadcastToAll W3 (draw_msg (seg 2 ''b'')) s123 =
       (None,
        s123\<lparr>trace := [Stringify (draw_msg (seg 2 ''b'')), Send 1 (draw_msg (seg 2 ''b'')),
                        Send 2 (draw_msg (seg 2 ''b''))]\<rparr>)
   \<and> received W3 1 (broadcast_trace W3 (draw_msg (seg 2 ''b'')) (clients s123)) = []
   \<and> received W3 2 (broadcast_trace W3 (draw_msg (seg 2 ''b'')) (clients s123)) =
       [draw_msg (seg 2 ''b'')]
   \<and> received W3 3 (broadcast_trace W3 (draw_msg (seg 2 ''b'')) (clients s123)) = []"
proof -
  have d: "distinct (clients s123)"
    by (simp add: s123_def)
  show ?thesis
    using d broadcast_reaches_open_members [of W3 "draw_msg (seg 2 ''b'')" s123 "\<lambda>c. False" 1]
      broadcast_reaches_open_members [of W3 "draw_msg (seg 2 ''b'')" s123 "\<lambda>c. False" 2]
      broadcast_reaches_open_members [of W3 "draw_msg (seg 2 ''b'')" s123 "\<lambda>c. False" 3]
    by (auto simp: s123_def W3_def W1_def W0_def)
qed

subsection \<open>The bounded history\<close>

lemma on_message_draw:
  assumes "draw_event (W, Message ws m) = Some d"
  shows "\<exists>data. JSON_parse W m = Some data \<and> get data ''type'' = Inr (JStr ''draw'') \<and>
           get data ''data'' = Inr d \<and>
           on_message W ws m s =
             s\<lparr>drawingHistory :=
                  (if length (drawingHistory s @ [d]) > MAX_HISTORY
                   then tl (drawingHistory s @ [d]) else drawingHistory s @ [d]),
               trace := trace s @ broadcast_trace W data (clients s)\<rparr>"
  using assms
  by (auto simp: discriminant_def on_message_def message_try_def broadcastToAll_eq Let_def
           split: option.splits sum.splits if_splits)

lemma drop_evicted:
  assumes "M = length H" and "H \<noteq> []"
  shows "drop (length (tl (H @ [d]) @ D) - M) (tl (H @ [d]) @ D) =
         drop (length (H @ d # D) - M) (H @ d # D)"
proof (cases H)
  case Nil
  with assms show ?thesis by simp
next
  case (Cons a H')
  then show ?thesis by (simp add: assms(1))
qed

lemma run_draws:
  "list_all is_draw evs \<Longrightarrow> length (drawingHistory s) \<le> MAX_HISTORY \<Longrightarrow>
     fst (run evs s) = None \<and> length (draws evs) = length evs \<and>
     clients (snd (run evs s)) = clients s \<and>
     drawingHistory (snd (run evs s)) =
       drop (length (drawingHistory s @ draws evs) - MAX_HISTORY) (drawingHistory s @ draws evs)"
proof (induction evs arbitrary: s)
  case Nil
  then show ?case by simp
next
  case (Cons x evs)
  obtain W ev where x: "x = (W, ev)" by (cases x)
  from Cons.prems(1) obtain d where d: "draw_event (W, ev) = Some d"
    by (auto simp: x is_draw_def)
  then obtain ws m where ev: "ev = Message ws m"
    by (cases ev) auto
  let ?s = "on_message W ws m s"
  from on_message_draw [OF d [unfolded ev], of s]
  have h: "drawingHistory ?s =
      (if length (drawingHistory s @ [d]) > MAX_HISTORY
       then tl (drawingHistory s @ [d]) else drawingHistory s @ [d])"
    and c: "clients ?s = clients s"
    by auto
  have le: "length (drawingHistory ?s) \<le> MAX_HISTORY"
    using Cons.prems(2) by (simp add: h)
  from Cons.prems(1) have rest: "list_all is_draw evs" by simp
  note IH = Cons.IH [OF rest le]
  have run: "run (x # evs) s = run evs ?s"
    by (simp add: x ev)
  have dr: "draws (x # evs) = d # draws evs"
    using d by (simp add: x)
  have key: "drop (length (drawingHistory ?s @ draws evs) - MAX_HISTORY) (drawingHistory ?s @ draws evs)
      = drop (length (drawingHistory s @ d # draws evs) - MAX_HISTORY)
          (drawingHistory s @ d # draws evs)"
  proof (cases "length (drawingHistory s @ [d]) > MAX_HISTORY")
    case False
    then show ?thesis by (simp add: h)
  next
    case True
    with Cons.prems(2) have len: "length (drawingHistory s) = MAX_HISTORY" by simp
    then have ne: "drawingHistory s \<noteq> []" by (auto simp: MAX_HISTORY_def)
    show ?thesis
      using drop_evicted [OF len [symmetric] ne, of d "draws evs"] True by (simp add: h)
  qed
  have "drawingHistory (snd (run (x # evs) s)) =
      drop (length (drawingHistory s @ draws (x # evs)) - MAX_HISTORY)
        (drawingHistory s @ draws (x # evs))"
    unfolding run dr using IH key by simp
  moreover have "length (draws (x # evs)) = length (x # evs)"
    unfolding dr using IH by simp
  moreover have "fst (run (x # evs) s) = None" "clients (snd (run (x # evs) s)) = clients s"
    unfolding run using IH c by simp_all
  ultimately show ?case by blast
qed


text \<open>
  Claim C1. MAX_HISTORY is 1000. From any state whose history holds at most 1000 events,
  whatever the registry and the state of the sockets, a sequence of N draw messages
  leaves in the history the last 1000 events of the old history followed by the N events
  received, in that order (all of them when there are fewer); from the empty history
  these are the last min(N, 1000) events received. No exception leaves the handlers on
  the way. One draw message appends its event at the tail and, exactly when the history
  already held 1000 events or more, removes the one event at the head.
\<close>

theorem bounded_history:
  assumes "list_all is_draw evs" and "length (drawingHistory s) \<le> MAX_HISTORY"
  shows "MAX_HISTORY = 1000
     \<and> length (draws evs) = length evs
     \<and> fst (run evs s) = None
     \<and> clients (snd (run evs s)) = clients s
     \<and> drawingHistory (snd (run evs s)) =
         drop (length (drawingHistory s) + length evs - 1000) (drawingHistory s @ draws evs)
     \<and> length (drawingHistory (snd (run evs s))) =
         min (length (drawingHistory s) + length evs) 1000
     \<and> (drawingHistory s = [] \<longrightarrow>
          drawingHistory (snd (run evs s)) = drop (length evs - 1000) (draws evs)
        \<and> length (drawingHistory (snd (run evs s))) = min (length evs) 1000)
     \<and> (draw_event (W, Message ws m) = Some d \<longrightarrow>
          drawingHistory (on_message W ws m s') =
            (if length (drawingHistory s') < 1000 then drawingHistory s' @ [d]
             else tl (drawingHistory s' @ [d])))"
proof -
  have one: "draw_event (W, Message ws m) = Some d \<Longrightarrow>
      drawingHistory (on_message W ws m s') =
        (if length (drawingHistory s') < 1000 then drawingHistory s' @ [d]
         else tl (drawingHistory s' @ [d]))"
    using on_message_draw [of W ws m d s'] by (auto simp: MAX_HISTORY_def)
  from run_draws [OF assms]
  have a: "length (draws evs) = length evs" and b: "fst (run evs s) = None"
    and k: "clients (snd (run evs s)) = clients s"
    and c: "drawingHistory (snd (run evs s)) =
      drop (length (drawingHistory s @ draws evs) - MAX_HISTORY) (drawingHistory s @ draws evs)"
    by simp_all
  have c': "drawingHistory (snd (run evs s)) =
         drop (length (drawingHistory s) + length evs - 1000) (drawingHistory s @ draws evs)"
    using c a by (simp add: MAX_HISTORY_def)
  have l: "length (drawingHistory (snd (run evs s))) =
         min (length (drawingHistory s) + length evs) 1000"
    unfolding c' using a by simp
  have e: "drawingHistory s = [] \<Longrightarrow>
          drawingHistory (snd (run evs s)) = drop (length evs - 1000) (draws evs)
        \<and> length (drawingHistory (snd (run evs s))) = min (length evs) 1000"
    using c' l by simp
  from a b k c' l e one show ?thesis
    by (simp add: MAX_HISTORY_def)
qed

theorem bounded_history_witness:
  "list_all is_draw evs1 \<and> length (drawingHistory s_full) \<le> MAX_HISTORY
   \<and> clients s_full = [1, 2]
   \<and> drawingHistory (snd (run evs1 s_full)) =
       replicate 998 (seg 0 ''c'') @ [seg 1 ''a'', seg 2 ''b'']
   \<and> length (drawingHistory (snd (run evs1 s_full))) = 1000
   \<and> draw_event (W0, Message 1 ''draw-1'') = Some (seg 1 ''a'')
   \<and> drawingHistory (on_message W0 1 ''draw-1'' s_full) =
       replicate 999 (seg 0 ''c'') @ [seg 1 ''a'']
   \<and> drawingHistory (on_message W0 1 ''draw-1'' s12) = [seg 1 ''a'', seg 1 ''a'']"
proof -
  have e: "draw_event (W0, Message 1 ''draw-1'') = Some (seg 1 ''a'')"
    by (simp add: discriminant_def W0_def parse0_def draw_msg_def)
  have h: "list_all is_draw evs1"
    by (simp add: evs1_def is_draw_def discriminant_def W0_def parse0_def draw_msg_def)
  have d: "draws evs1 = [seg 1 ''a'', seg 2 ''b'']" and n: "length evs1 = 2"
    by (simp_all add: evs1_def discriminant_def W0_def parse0_def draw_msg_def)
  have f: "length (drawingHistory s_full) \<le> MAX_HISTORY"
    and c: "clients s_full = [1, 2]"
    and hf: "drawingHistory s_full = replicate 1000 (seg 0 ''c'')"
    and h12: "drawingHistory s12 = [seg 1 ''a'']"
    by (simp_all add: s_full_def s12_def MAX_HISTORY_def)
  note t1 = bounded_history [OF h f, of W0 1 "''draw-1''" "seg 1 ''a''" s_full]
  note t2 = bounded_history [OF h f, of W0 1 "''draw-1''" "seg 1 ''a''" s12]
  from t1 have r: "drawingHistory (snd (run evs1 s_full)) =
       drop (length (drawingHistory s_full) + length evs1 - 1000) (drawingHistory s_full @ draws evs1)"
    by blast
  have r': "drawingHistory (snd (run evs1 s_full)) =
       replicate 998 (seg 0 ''c'') @ [seg 1 ''a'', seg 2 ''b'']"
    unfolding r hf d n by simp
  from t1 e have o1: "drawingHistory (on_message W0 1 ''draw-1'' s_full) =
       (if length (drawingHistory s_full) < 1000 then drawingHistory s_full @ [seg 1 ''a'']
        else tl (drawingHistory s_full @ [seg 1 ''a'']))"
    by blast
  have o1': "drawingHistory (on_message W0 1 ''draw-1'' s_full) =
       replicate 999 (seg 0 ''c'') @ [seg 1 ''a'']"
    unfolding o1 hf by simp
  from t2 e have o2: "drawingHistory (on_message W0 1 ''draw-1'' s12) =
       (if length (drawingHistory s12) < 1000 then drawingHistory s12 @ [seg 1 ''a'']
        else tl (drawingHistory s12 @ [seg 1 ''a'']))"
    by blast
  have o2': "drawingHistory (on_message W0 1 ''draw-1'' s12) = [seg 1 ''a'', seg 1 ''a'']"
    unfolding o2 h12 by simp
  have l: "length (drawingHistory (snd (run evs1 s_full))) = 1000"
    unfolding r' by simp
  from h f c r' l e o1' o2' show ?thesis
    by blast
qed

subsection \<open>Dispatch of draw, clear, ping and everything else\<close>

lemma Send_in_sends:
  "Send c f \<in> set (Stringify v # map (\<lambda>c. Send c g) cs) \<longleftrightarrow> c \<in> set cs \<and> f = g"
  by auto

text \<open>
  Claim C2. A draw message (a text that parses to a value whose \<open>type\<close> is \<open>draw\<close>)
  appends its event \<open>data.data\<close> to the history; then the message itself, with that type
  and that event, is serialised once and \<open>send\<close> is called with it on every member of
  the registry that reports open, in registry order. The sender is treated like any other
  member: when it is registered and open, \<open>send\<close> is called on it. No exception leaves
  the handler.
\<close>

theorem draw_is_appended_and_broadcast:
  assumes "JSON_parse W m = Some data" and "get data ''type'' = Inr (JStr ''draw'')"
  shows "\<exists>d. get data ''data'' = Inr d
     \<and> drawingHistory (on_message W ws m s) =
         (if length (drawingHistory s) < MAX_HISTORY then drawingHistory s @ [d]
          else tl (drawingHistory s @ [d]))
     \<and> clients (on_message W ws m s) = clients s
     \<and> trace (on_message W ws m s) =
         trace s @
         Stringify data #
         map (\<lambda>c. Send c (JSON_stringify W data))
           (filter (\<lambda>c. readyState W c = OPEN) (clients s))
     \<and> (\<forall>c \<in> set (clients s). readyState W c = OPEN \<longrightarrow>
          Send c (JSON_stringify W data) \<in> set (emitted s (on_message W ws m s)))
     \<and> (ws \<in> set (clients s) \<and> readyState W ws = OPEN \<longrightarrow>
          Send ws (JSON_stringify W data) \<in> set (emitted s (on_message W ws m s)))
     \<and> step W (Message ws m) s = (None, on_message W ws m s)"
proof -
  from assms(2) obtain d where d: "get data ''data'' = Inr d"
    using get_data_total by blast
  have ev: "draw_event (W, Message ws m) = Some d"
    using assms d by (simp add: discriminant_def)
  have o: "is_open W = (\<lambda>c. readyState W c = OPEN)"
    by (simp add: is_open_def fun_eq_iff)
  from on_message_draw [OF ev, of s] assms(1)
  have eq: "on_message W ws m s =
      s\<lparr>drawingHistory :=
           (if length (drawingHistory s @ [d]) > MAX_HISTORY
            then tl (drawingHistory s @ [d]) else drawingHistory s @ [d]),
        trace := trace s @ broadcast_trace W data (clients s)\<rparr>"
    by auto
  have h: "drawingHistory (on_message W ws m s) =
         (if length (drawingHistory s) < MAX_HISTORY then drawingHistory s @ [d]
          else tl (drawingHistory s @ [d]))"
    unfolding eq by auto
  have t: "trace (on_message W ws m s) =
         trace s @
         Stringify data #
         map (\<lambda>c. Send c (JSON_stringify W data))
           (filter (\<lambda>c. readyState W c = OPEN) (clients s))"
    and c: "clients (on_message W ws m s) = clients s"
    unfolding eq by (simp_all add: broadcast_trace_def o)
  have e: "emitted s (on_message W ws m s) =
         Stringify data #
         map (\<lambda>c. Send c (JSON_stringify W data))
           (filter (\<lambda>c. readyState W c = OPEN) (clients s))"
    using t by (simp add: emitted_def)
  have f: "\<forall>c \<in> set (clients s). readyState W c = OPEN \<longrightarrow>
          Send c (JSON_stringify W data) \<in> set (emitted s (on_message W ws m s))"
    unfolding e Send_in_sends by simp
  from d h t c f show ?thesis
    by auto
qed

theorem draw_is_appended_and_broadcast_witness:
  "JSON_parse W3 ''draw-2'' = Some (draw_msg (seg 2 ''b''))
   \<and> get (draw_msg (seg 2 ''b'')) ''type'' = Inr (JStr ''draw'')
   \<and> get (draw_msg (seg 2 ''b'')) ''data'' = Inr (seg 2 ''b'')
   \<and> 2 \<in> set (clients s123) \<and> readyState W3 2 = OPEN
   \<and> drawingHistory (on_message W3 2 ''draw-2'' s123) = [seg 1 ''a'', seg 2 ''b'']
   \<and> trace (on_message W3 2 ''draw-2'' s123) =
       [Stringify (draw_msg (seg 2 ''b'')), Send 1 (draw_msg (seg 2 ''b'')),
        Send 2 (draw_msg (seg 2 ''b''))]
   \<and> Send 2 (draw_msg (seg 2 ''b'')) \<in> set (emitted s123 (on_message W3 2 ''draw-2'' s123))"
proof -
  have p: "JSON_parse W3 ''draw-2'' = Some (draw_msg (seg 2 ''b''))"
    by (simp add: W3_def W1_def W0_def parse0_def)
  have t: "get (draw_msg (seg 2 ''b'')) ''type'' = Inr (JStr ''draw'')"
    and d: "get (draw_msg (seg 2 ''b'')) ''data'' = Inr (seg 2 ''b'')"
    by (simp_all add: draw_msg_def)
  have n: "2 \<in> set (clients s123)" "readyState W3 2 = OPEN"
    by (simp_all add: W3_def s123_def)
  have l: "drawingHistory s123 = [seg 1 ''a'']" "trace s123 = []"
    "filter (\<lambda>c. readyState W3 c = OPEN) (clients s123) = [1, 2]"
    "JSON_stringify W3 (draw_msg (seg 2 ''b'')) = draw_msg (seg 2 ''b'')"
    by (simp_all add: s123_def W3_def W1_def W0_def)
  note th = draw_is_appended_and_broadcast [OF p t, of 2 s123]
  from th d have h: "drawingHistory (on_message W3 2 ''draw-2'' s123) =
         (if length (drawingHistory s123) < MAX_HISTORY then drawingHistory s123 @ [seg 2 ''b'']
          else tl (drawingHistory s123 @ [seg 2 ''b'']))"
    by auto
  have h': "drawingHistory (on_message W3 2 ''draw-2'' s123) = [seg 1 ''a'', seg 2 ''b'']"
    unfolding h l by (simp add: MAX_HISTORY_def)
  from th have tr: "trace (on_message W3 2 ''draw-2'' s123) =
         trace s123 @
         Stringify (draw_msg (seg 2 ''b'')) #
         map (\<lambda>c. Send c (JSON_stringify W3 (draw_msg (seg 2 ''b''))))
           (filter (\<lambda>c. readyState W3 c = OPEN) (clients s123))"
    by blast
  have tr': "trace (on_message W3 2 ''draw-2'' s123) =
       [Stringify (draw_msg (seg 2 ''b'')), Send 1 (draw_msg (seg 2 ''b'')),
        Send 2 (draw_msg (seg 2 ''b''))]"
    unfolding tr l by simp
  from th n have s: "Send 2 (JSON_stringify W3 (draw_msg (seg 2 ''b'')))
      \<in> set (emitted s123 (on_message W3 2 ''draw-2'' s123))"
    by blast
  from p t d n h' tr' s [unfolded l] show ?thesis
    by blast
qed

text \<open>
  Claim C4. A clear message, whatever the history held, leaves the history empty; then
  the message itself, of type \<open>clear\<close>, is serialised once and \<open>send\<close> is called with it
  on every member of the registry that reports open. No exception leaves the handler.
\<close>

theorem clear_empties_and_broadcasts:
  assumes "JSON_parse W m = Some data" and "get data ''type'' = Inr (JStr ''clear'')"
  shows "drawingHistory (on_message W ws m s) = []
     \<and> clients (on_message W ws m s) = clients s
     \<and> trace (on_message W ws m s) =
         trace s @
         Stringify data #
         map (\<lambda>c. Send c (JSON_stringify W data))
           (filter (\<lambda>c. readyState W c = OPEN) (clients s))
     \<and> (\<forall>c \<in> set (clients s). readyState W c = OPEN \<longrightarrow>
          Send c (JSON_stringify W data) \<in> set (emitted s (on_message W ws m s)))
     \<and> step W (Message ws m) s = (None, on_message W ws m s)"
proof -
  have o: "is_open W = (\<lambda>c. readyState W c = OPEN)"
    by (simp add: is_open_def fun_eq_iff)
  have eq: "on_message W ws m s =
      s\<lparr>drawingHistory := [], trace := trace s @ broadcast_trace W data (clients s)\<rparr>"
    using assms by (simp add: on_message_def message_try_def broadcastToAll_eq)
  have t: "trace (on_message W ws m s) =
         trace s @
         Stringify data #
         map (\<lambda>c. Send c (JSON_stringify W data))
           (filter (\<lambda>c. readyState W c = OPEN) (clients s))"
    unfolding eq by (simp add: broadcast_trace_def o)
  have e: "emitted s (on_message W ws m s) =
         Stringify data #
         map (\<lambda>c. Send c (JSON_stringify W data))
           (filter (\<lambda>c. readyState W c = OPEN) (clients s))"
    using t by (simp add: emitted_def)
  have f: "\<forall>c \<in> set (clients s). readyState W c = OPEN \<longrightarrow>
          Send c (JSON_stringify W data) \<in> set (emitted s (on_message W ws m s))"
    unfolding e Send_in_sends by simp
  from t f show ?thesis
    by (simp add: eq)
qed

theorem clear_empties_and_broadcasts_witness:
  "JSON_parse W3 ''clear'' = Some (JObj [(''type'', JStr ''clear'')])
   \<and> get (JObj [(''type'', JStr ''clear'')]) ''type'' = Inr (JStr ''clear'')
   \<and> drawingHistory s123 \<noteq> []
   \<and> drawingHistory (on_message W3 2 ''clear'' s123) = []
   \<and> trace (on_message W3 2 ''clear'' s123) =
       [Stringify (JObj [(''type'', JStr ''clear'')]), Send 1 (JObj [(''type'', JStr ''clear'')]),
        Send 2 (JObj [(''type'', JStr ''clear'')])]"
proof -
  have p: "JSON_parse W3 ''clear'' = Some (JObj [(''type'', JStr ''clear'')])"
    by (simp add: W3_def W1_def W0_def parse0_def)
  have t: "get (JObj [(''type'', JStr ''clear'')]) ''type'' = Inr (JStr ''clear'')"
    by simp
  have l: "drawingHistory s123 \<noteq> []" "trace s123 = []"
    "filter (\<lambda>c. readyState W3 c = OPEN) (clients s123) = [1, 2]"
    "JSON_stringify W3 (JObj [(''type'', JStr ''clear'')]) = JObj [(''type'', JStr ''clear'')]"
    by (simp_all add: s123_def W3_def W1_def W0_def)
  note th = clear_empties_and_broadcasts [OF p t, of 2 s123]
  from th have h: "drawingHistory (on_message W3 2 ''clear'' s123) = []"
    by blast
  from th have tr: "trace (on_message W3 2 ''clear'' s123) =
         trace s123 @
         Stringify (JObj [(''type'', JStr ''clear'')]) #
         map (\<lambda>c. Send c (JSON_stringify W3 (JObj [(''type'', JStr ''clear'')])))
           (filter (\<lambda>c. readyState W3 c = OPEN) (clients s123))"
    by blast
  have tr': "trace (on_message W3 2 ''clear'' s123) =
       [Stringify (JObj [(''type'', JStr ''clear'')]), Send 1 (JObj [(''type'', JStr ''clear'')]),
        Send 2 (JObj [(''type'', JStr ''clear'')])]"
    unfolding tr l(2,3,4) by simp
  from p t l(1) h tr' show ?thesis
    by blast
qed

text \<open>
  Claim C5, as stated, fails: the relay never looks at the event of a draw message. A
  text that parses to a value of type \<open>draw\<close> with no \<open>data\<close> at all, which is not a Draw
  message, is handled as one: \<open>undefined\<close> is pushed on the history, and the frame is
  broadcast.
\<close>

theorem malformed_draw_counterexample:
  "JSON_parse W0 ''draw-nothing'' = Some (JObj [(''type'', JStr ''draw'')])
   \<and> get (JObj [(''type'', JStr ''draw'')]) ''data'' = Inr JUndefined
   \<and> drawingHistory s12 = [seg 1 ''a'']
   \<and> drawingHistory (on_message W0 1 ''draw-nothing'' s12) = [seg 1 ''a'', JUndefined]
   \<and> trace s12 = []
   \<and> trace (on_message W0 1 ''draw-nothing'' s12) =
       [Stringify (JObj [(''type'', JStr ''draw'')]), Send 1 (JObj [(''type'', JStr ''draw'')]),
        Send 2 (JObj [(''type'', JStr ''draw'')])]"
  by (simp add: on_message_def message_try_def broadcastToAll_def stringify_def ws_send_def
        W0_def parse0_def s12_def MAX_HISTORY_def)

text \<open>
  Claim C5, amended. A text that \<open>JSON.parse\<close> rejects, or whose parsed value has no
  readable \<open>type\<close> (it is null), or whose \<open>type\<close> is none of \<open>draw\<close>, \<open>clear\<close>, \<open>ping\<close>,
  changes nothing: the registry (so the sender stays registered), the history and the
  trace (nothing is serialised or sent) are as before, no exception leaves the handler,
  and a later message is handled as if the text had never arrived.
\<close>

theorem unrecognised_is_ignored:
  assumes "unrecognised W m"
  shows "on_message W ws m s = s
     \<and> step W (Message ws m) s = (None, s)
     \<and> on_message W' ws m' (on_message W ws m s) = on_message W' ws m' s"
proof -
  have "on_message W ws m s = s"
    using assms
    by (auto simp: unrecognised_def discriminant_def on_message_def message_try_def
             split: option.splits sum.splits)
  then show ?thesis by simp
qed

theorem unrecognised_is_ignored_witness:
  "unrecognised W0 ''{oops'' \<and> unrecognised W0 ''null'' \<and> unrecognised W0 ''undo''
   \<and> on_message W0 1 ''{oops'' s12 = s12
   \<and> on_message W0 1 ''null'' s12 = s12
   \<and> on_message W0 1 ''undo'' s12 = s12
   \<and> drawingHistory (on_message W0 1 ''draw-2'' (on_message W0 1 ''undo'' s12)) =
       [seg 1 ''a'', seg 2 ''b'']"
proof -
  have u: "unrecognised W0 ''{oops''" "unrecognised W0 ''null''" "unrecognised W0 ''undo''"
    by (simp_all add: unrecognised_def discriminant_def W0_def parse0_def)
  have d: "drawingHistory (on_message W0 1 ''draw-2'' s12) = [seg 1 ''a'', seg 2 ''b'']"
    by (simp add: on_message_def message_try_def broadcastToAll_eq W0_def parse0_def
          draw_msg_def s12_def MAX_HISTORY_def)
  show ?thesis
    using u d unrecognised_is_ignored [OF u(1), of 1 s12 W0 "''draw-2''"]
      unrecognised_is_ignored [OF u(2), of 1 s12 W0 "''draw-2''"]
      unrecognised_is_ignored [OF u(3), of 1 s12 W0 "''draw-2''"]
    by simp
qed


subsection \<open>What each handler adds to the trace\<close>

lemma emitted_append [simp]: "trace s' = trace s @ new \<Longrightarrow> emitted s s' = new"
  by (simp add: emitted_def)

lemma on_connection_eq:
  "on_connection W ws s =
     (if drawingHistory s = [] then
        (None,
         s\<lparr>clients := Set_add ws (clients s),
           trace := trace s @
             broadcast_trace W (userCount_msg (length (Set_add ws (clients s))))
               (Set_add ws (clients s))\<rparr>)
      else if readyState W ws = CONNECTING then
        (Some SendError,
         s\<lparr>clients := Set_add ws (clients s),
           trace := trace s @
             [Stringify (history_msg (drawingHistory s)),
              Send ws (JSON_stringify W (history_msg (drawingHistory s)))]\<rparr>)
      else
        (None,
         s\<lparr>clients := Set_add ws (clients s),
           trace := trace s @
             [Stringify (history_msg (drawingHistory s)),
              Send ws (JSON_stringify W (history_msg (drawingHistory s)))] @
             broadcast_trace W (userCount_msg (length (Set_add ws (clients s))))
               (Set_add ws (clients s))\<rparr>))"
  by (simp add: on_connection_def Let_def stringify_def ws_send_def broadcastUserCount_eq)

lemma on_close_eq:
  "on_close W ws s =
     (None,
      s\<lparr>clients := Set_delete ws (clients s),
        trace := trace s @
          broadcast_trace W (userCount_msg (length (Set_delete ws (clients s))))
            (Set_delete ws (clients s))\<rparr>)"
  by (simp add: on_close_def broadcastUserCount_eq)

lemma on_message_cases:
  "on_message W ws m s = s
   \<or> (\<exists>data d. JSON_parse W m = Some data \<and> get data ''type'' = Inr (JStr ''draw'') \<and>
         get data ''data'' = Inr d \<and>
         on_message W ws m s =
           s\<lparr>drawingHistory :=
                (if length (drawingHistory s @ [d]) > MAX_HISTORY
                 then tl (drawingHistory s @ [d]) else drawingHistory s @ [d]),
             trace := trace s @ broadcast_trace W data (clients s)\<rparr>)
   \<or> (\<exists>data. JSON_parse W m = Some data \<and> get data ''type'' = Inr (JStr ''clear'') \<and>
         on_message W ws m s =
           s\<lparr>drawingHistory := [], trace := trace s @ broadcast_trace W data (clients s)\<rparr>)
   \<or> (discriminant W m = Some (JStr ''ping'') \<and>
         on_message W ws m s =
           s\<lparr>trace := trace s @ [Stringify pong_msg, Send ws (JSON_stringify W pong_msg)]\<rparr>)"
  by (auto simp: on_message_def message_try_def discriminant_def broadcastToAll_eq Let_def
        stringify_def ws_send_def
      split: option.splits sum.splits)

lemma step_trace_grows: "\<exists>new. trace (snd (step W ev s)) = trace s @ new"
proof (cases ev)
  case (Connection ws)
  then show ?thesis by (simp add: on_connection_eq)
next
  case (Message ws m)
  then show ?thesis using on_message_cases [of W ws m s] by auto
next
  case (Close ws)
  then show ?thesis by (simp add: on_close_eq)
next
  case (Error ws)
  then show ?thesis by (simp add: on_error_def)
qed

lemma run_trace_grows: "prefix (trace s) (trace (snd (run evs s)))"
proof (induction evs arbitrary: s)
  case Nil
  then show ?case by simp
next
  case (Cons x evs)
  obtain W ev where x: "x = (W, ev)" by (cases x)
  obtain e s' where st: "step W ev s = (e, s')" by (cases "step W ev s")
  from step_trace_grows [of W ev s] st have p: "prefix (trace s) (trace s')"
    by (auto simp: prefix_def)
  show ?case
  proof (cases e)
    case None
    with Cons.IH [of s'] p show ?thesis
      by (auto simp: x st intro: prefix_order.trans)
  next
    case (Some a)
    with p show ?thesis by (simp add: x st)
  qed
qed


lemma stringified_types:
  assumes "v \<in> set (stringified (emitted s (snd (step W ev s))))"
  shows "(v = history_msg (drawingHistory s) \<and> (\<exists>ws. ev = Connection ws))
       \<or> (\<exists>n. v = userCount_msg n) \<or> v = pong_msg
       \<or> (\<exists>ws m. ev = Message ws m \<and> JSON_parse W m = Some v \<and>
             (get v ''type'' = Inr (JStr ''draw'') \<or> get v ''type'' = Inr (JStr ''clear'')))"
proof (cases ev)
  case (Connection ws)
  with assms show ?thesis
    by (auto simp: on_connection_eq split: if_splits)
next
  case (Message ws m)
  with assms on_message_cases [of W ws m s] show ?thesis
    by (auto simp: emitted_def)
next
  case (Close ws)
  with assms show ?thesis by (auto simp: on_close_eq)
next
  case (Error ws)
  with assms show ?thesis by (simp add: on_error_def emitted_def)
qed

lemma sends_are_serialisations:
  assumes "Send c f \<in> set (emitted s (snd (step W ev s)))"
  shows "\<exists>v \<in> set (stringified (emitted s (snd (step W ev s)))). f = JSON_stringify W v"
proof (cases ev)
  case (Connection ws)
  with assms show ?thesis
    by (auto simp: on_connection_eq broadcast_trace_def split: if_splits)
next
  case (Message ws m)
  with assms on_message_cases [of W ws m s] show ?thesis
    by (auto simp: emitted_def broadcast_trace_def)
next
  case (Close ws)
  with assms show ?thesis by (auto simp: on_close_eq broadcast_trace_def)
next
  case (Error ws)
  with assms show ?thesis by (simp add: on_error_def emitted_def)
qed

text \<open>
  Claim C9. A ping message makes the relay serialise one value, whose \<open>type\<close> is \<open>pong\<close>,
  and call \<open>send\<close> with it on the socket the ping came from, and on no other socket;
  the registry and the history are unchanged. The relay never sends a ping of its own: whatever the event and
  the state, no value a handler serialises has the type \<open>ping\<close>, and every frame a handler
  sends is the serialisation of a value it has just serialised.
\<close>

theorem ping_gets_pong:
  assumes "discriminant W m = Some (JStr ''ping'')"
  shows "on_message W ws m s =
           s\<lparr>trace := trace s @ [Stringify pong_msg, Send ws (JSON_stringify W pong_msg)]\<rparr>
     \<and> clients (on_message W ws m s) = clients s
     \<and> drawingHistory (on_message W ws m s) = drawingHistory s
     \<and> get pong_msg ''type'' = Inr (JStr ''pong'')
     \<and> stringified (emitted s (on_message W ws m s)) = [pong_msg]
     \<and> frames_to c (emitted s (on_message W ws m s)) =
         (if c = ws then [JSON_stringify W pong_msg] else [])
     \<and> (\<forall>v \<in> set (stringified (emitted s' (snd (step W' ev s')))).
          get v ''type'' \<noteq> Inr (JStr ''ping''))
     \<and> (\<forall>c' f. Send c' f \<in> set (emitted s' (snd (step W' ev s'))) \<longrightarrow>
          (\<exists>v \<in> set (stringified (emitted s' (snd (step W' ev s')))). f = JSON_stringify W' v))"
proof -
  have eq: "on_message W ws m s =
           s\<lparr>trace := trace s @ [Stringify pong_msg, Send ws (JSON_stringify W pong_msg)]\<rparr>"
    using assms
    by (auto simp: discriminant_def on_message_def message_try_def stringify_def ws_send_def
          Let_def split: option.splits sum.splits)
  have fr: "frames_to c (emitted s (on_message W ws m s)) =
         (if c = ws then [JSON_stringify W pong_msg] else [])"
    unfolding eq by simp
  have np: "\<forall>v \<in> set (stringified (emitted s' (snd (step W' ev s')))).
          get v ''type'' \<noteq> Inr (JStr ''ping'')"
  proof
    fix v assume "v \<in> set (stringified (emitted s' (snd (step W' ev s'))))"
    from stringified_types [OF this] show "get v ''type'' \<noteq> Inr (JStr ''ping'')"
      by (auto simp: history_msg_def userCount_msg_def pong_msg_def)
  qed
  have st: "stringified (emitted s (on_message W ws m s)) = [pong_msg]"
    unfolding eq by simp
  have ty: "get pong_msg ''type'' = Inr (JStr ''pong'')"
    by (simp add: pong_msg_def)
  from eq fr st ty np sends_are_serialisations [of _ _ s' W' ev] show ?thesis
    by (simp add: eq)
qed


theorem ping_gets_pong_witness:
  "discriminant W0 ''ping'' = Some (JStr ''ping'')
   \<and> on_message W0 2 ''ping'' s12 = s12\<lparr>trace := [Stringify pong_msg, Send 2 pong_msg]\<rparr>
   \<and> frames_to 1 (emitted s12 (on_message W0 2 ''ping'' s12)) = []
   \<and> frames_to 2 (emitted s12 (on_message W0 2 ''ping'' s12)) = [pong_msg]
   \<and> stringified (emitted s12 (snd (step W0 (Message 2 ''ping'') s12))) = [pong_msg]
   \<and> get pong_msg ''type'' = Inr (JStr ''pong'')"
proof -
  have d: "discriminant W0 ''ping'' = Some (JStr ''ping'')"
    by (simp add: discriminant_def W0_def parse0_def)
  have j: "JSON_stringify W0 pong_msg = pong_msg" "trace s12 = []"
    by (simp_all add: W0_def s12_def)
  have e: "on_message W0 2 ''ping'' s12 = s12\<lparr>trace := [Stringify pong_msg, Send 2 pong_msg]\<rparr>"
    using ping_gets_pong [OF d, of 2 s12 2 s12 W0 "Message 2 ''ping''"] by (simp add: j)
  have st: "stringified (emitted s12 (snd (step W0 (Message 2 ''ping'') s12))) = [pong_msg]"
    by (simp add: e emitted_def j)
  show ?thesis
    using d ping_gets_pong [OF d, of 2 s12 1 s12 W0 "Message 2 ''ping''"]
      ping_gets_pong [OF d, of 2 s12 2 s12 W0 "Message 2 ''ping''"]
    by (simp add: j st)
qed

subsection \<open>Connecting and disconnecting\<close>

text \<open>
  Claim C6. When a socket connects while the history is not empty, the handler serialises
  one message whose \<open>type\<close> is \<open>history\<close> and whose \<open>data\<close> is the array of the events in
  the history at that moment, and calls \<open>send\<close> with it on the new socket only; all it
  does afterwards is the user-count broadcast (not reached when that \<open>send\<close> throws,
  which it does only on a socket still CONNECTING). Whatever events follow, the trace
  only grows at its end, so everything a later draw or clear message broadcasts comes
  after the history message; and no event other than a connection serialises a history
  message.
\<close>

theorem history_on_connect:
  assumes "drawingHistory s \<noteq> []"
  shows "trace (snd (on_connection W ws s)) =
           trace s @
           [Stringify (history_msg (drawingHistory s)),
            Send ws (JSON_stringify W (history_msg (drawingHistory s)))] @
           (if readyState W ws = CONNECTING then []
            else broadcast_trace W (userCount_msg (length (Set_add ws (clients s))))
                   (Set_add ws (clients s)))
     \<and> stringified (emitted s (snd (on_connection W ws s))) =
           history_msg (drawingHistory s) #
           (if readyState W ws = CONNECTING then [] else [userCount_msg (length (Set_add ws (clients s)))])
     \<and> get (history_msg (drawingHistory s)) ''type'' = Inr (JStr ''history'')
     \<and> get (history_msg (drawingHistory s)) ''data'' = Inr (JArr (drawingHistory s))
     \<and> get (userCount_msg (length (Set_add ws (clients s)))) ''type'' = Inr (JStr ''userCount'')
     \<and> prefix (trace (snd (on_connection W ws s)))
          (trace (snd (run evs (snd (on_connection W ws s)))))
     \<and> ((\<forall>c. ev \<noteq> Connection c) \<longrightarrow>
          (\<forall>v \<in> set (stringified (emitted s' (snd (step W' ev s')))).
             get v ''type'' \<noteq> Inr (JStr ''history'')))"
proof -
  have t: "trace (snd (on_connection W ws s)) =
           trace s @
           [Stringify (history_msg (drawingHistory s)),
            Send ws (JSON_stringify W (history_msg (drawingHistory s)))] @
           (if readyState W ws = CONNECTING then []
            else broadcast_trace W (userCount_msg (length (Set_add ws (clients s))))
                   (Set_add ws (clients s)))"
    using assms by (simp add: on_connection_eq)
  have e: "stringified (emitted s (snd (on_connection W ws s))) =
           history_msg (drawingHistory s) #
           (if readyState W ws = CONNECTING then [] else [userCount_msg (length (Set_add ws (clients s)))])"
    using emitted_append [OF t] by simp
  have n: "get (history_msg (drawingHistory s)) ''type'' = Inr (JStr ''history'')"
    "get (history_msg (drawingHistory s)) ''data'' = Inr (JArr (drawingHistory s))"
    "get (userCount_msg (length (Set_add ws (clients s)))) ''type'' = Inr (JStr ''userCount'')"
    by (simp_all add: history_msg_def userCount_msg_def)
  have l: "(\<forall>c. ev \<noteq> Connection c) \<longrightarrow>
          (\<forall>v \<in> set (stringified (emitted s' (snd (step W' ev s')))).
             get v ''type'' \<noteq> Inr (JStr ''history''))"
  proof (intro impI ballI)
    fix v assume "\<forall>c. ev \<noteq> Connection c"
      and "v \<in> set (stringified (emitted s' (snd (step W' ev s'))))"
    with stringified_types [of v s' W' ev] show "get v ''type'' \<noteq> Inr (JStr ''history'')"
      by (auto simp: userCount_msg_def pong_msg_def)
  qed
  from t e n l run_trace_grows [of "snd (on_connection W ws s)" evs] show ?thesis
    by blast
qed


theorem history_on_connect_witness:
  "drawingHistory s12 \<noteq> []
   \<and> trace (snd (on_connection W0 3 s12)) =
       [Stringify (history_msg [seg 1 ''a'']), Send 3 (history_msg [seg 1 ''a'']),
        Stringify (userCount_msg 3), Send 1 (userCount_msg 3), Send 2 (userCount_msg 3),
        Send 3 (userCount_msg 3)]
   \<and> prefix (trace (snd (on_connection W0 3 s12)))
        (trace (snd (run [(W0, Message 1 ''draw-2'')] (snd (on_connection W0 3 s12)))))"
proof -
  have h: "drawingHistory s12 \<noteq> []"
    by (simp add: s12_def)
  show ?thesis
    using h history_on_connect [OF h, of W0 3 "[(W0, Message 1 ''draw-2'')]"
        "Message 1 ''draw-2''" s12 W0]
    by (auto simp: s12_def W0_def Set_add_def broadcast_trace_def userCount_msg_def is_open_def)
qed

text \<open>
  Claim C7, as stated, fails: the handler sends the history only when its length is
  positive. After three sockets connected, one drew and one cleared, the history is
  empty, and the only frame socket 4 is sent when it connects is the user count.
\<close>

theorem empty_history_counterexample:
  "drawingHistory (snd (run evs7 initial)) = []
   \<and> frames_to 4 (trace (snd (run (evs7 @ [(W0, Connection 4)]) initial))) = [userCount_msg 4]
   \<and> JSON_stringify W0 (history_msg [])
        \<notin> set (frames_to 4 (trace (snd (run (evs7 @ [(W0, Connection 4)]) initial))))"
  by (simp add: evs7_def initial_def on_connection_eq on_message_def message_try_def
        broadcastToAll_eq broadcast_trace_def Set_add_def is_open_def
        W0_def parse0_def draw_msg_def history_msg_def userCount_msg_def MAX_HISTORY_def)

text \<open>
  Claim C7, amended. After a clear message the history is empty, and a socket connecting
  then is sent no history message: the connection handler serialises the user count only
  and broadcasts it.
\<close>

theorem no_history_after_clear:
  assumes "discriminant W m = Some (JStr ''clear'')"
  shows "drawingHistory (on_message W ws m s) = []
     \<and> trace (snd (on_connection W' d (on_message W ws m s))) =
         trace (on_message W ws m s) @
         broadcast_trace W' (userCount_msg (length (Set_add d (clients s)))) (Set_add d (clients s))
     \<and> stringified (emitted (on_message W ws m s) (snd (on_connection W' d (on_message W ws m s)))) =
         [userCount_msg (length (Set_add d (clients s)))]
     \<and> userCount_msg (length (Set_add d (clients s))) \<noteq> history_msg h"
proof -
  from assms obtain data where p: "JSON_parse W m = Some data"
    and t: "get data ''type'' = Inr (JStr ''clear'')"
    by (auto simp: discriminant_def split: option.splits sum.splits)
  have eq: "on_message W ws m s =
      s\<lparr>drawingHistory := [], trace := trace s @ broadcast_trace W data (clients s)\<rparr>"
    using p t by (simp add: on_message_def message_try_def broadcastToAll_eq)
  have h: "drawingHistory (on_message W ws m s) = []"
    and c: "clients (on_message W ws m s) = clients s"
    unfolding eq by simp_all
  have tr: "trace (snd (on_connection W' d (on_message W ws m s))) =
         trace (on_message W ws m s) @
         broadcast_trace W' (userCount_msg (length (Set_add d (clients s)))) (Set_add d (clients s))"
    by (simp add: on_connection_eq h c)
  from h tr emitted_append [OF tr] show ?thesis
    by (simp add: userCount_msg_def history_msg_def)
qed

theorem no_history_after_clear_witness:
  "discriminant W0 ''clear'' = Some (JStr ''clear'')
   \<and> drawingHistory (on_message W0 2 ''clear'' s12) = []
   \<and> stringified (emitted (on_message W0 2 ''clear'' s12)
        (snd (on_connection W0 4 (on_message W0 2 ''clear'' s12)))) = [userCount_msg 3]"
proof -
  have d: "discriminant W0 ''clear'' = Some (JStr ''clear'')"
    by (simp add: discriminant_def W0_def parse0_def)
  have l: "length (Set_add 4 (clients s12)) = 3"
    by (simp add: Set_add_def s12_def)
  show ?thesis
    using d no_history_after_clear [OF d, of 2 s12 W0 4 "[]"] by (simp add: l)
qed

lemma distinct_Set_add: "distinct cs \<Longrightarrow> distinct (Set_add c cs)"
  by (simp add: Set_add_def)

lemma distinct_Set_delete: "distinct cs \<Longrightarrow> distinct (Set_delete c cs)"
  by (simp add: Set_delete_def distinct_removeAll)

lemma step_distinct: "distinct (clients s) \<Longrightarrow> distinct (clients (snd (step W ev s)))"
proof (cases ev)
  case (Connection ws)
  then show "distinct (clients s) \<Longrightarrow> ?thesis"
    by (simp add: on_connection_eq distinct_Set_add)
next
  case (Message ws m)
  then show "distinct (clients s) \<Longrightarrow> ?thesis"
    using on_message_cases [of W ws m s] by auto
next
  case (Close ws)
  then show "distinct (clients s) \<Longrightarrow> ?thesis"
    by (simp add: on_close_eq distinct_Set_delete)
next
  case (Error ws)
  then show "distinct (clients s) \<Longrightarrow> ?thesis"
    by (simp add: on_error_def)
qed

lemma run_distinct: "distinct (clients s) \<Longrightarrow> distinct (clients (snd (run evs s)))"
proof (induction evs arbitrary: s)
  case Nil
  then show ?case by simp
next
  case (Cons x evs)
  obtain W ev where x: "x = (W, ev)" by (cases x)
  obtain e s' where st: "step W ev s = (e, s')" by (cases "step W ev s")
  from step_distinct [OF Cons.prems, of W ev] st have d: "distinct (clients s')" by simp
  show ?case
  proof (cases e)
    case None
    with Cons.IH [OF d] show ?thesis by (simp add: x st)
  next
    case (Some a)
    with d show ?thesis by (simp add: x st)
  qed
qed

lemma reachable_distinct: "distinct (clients (snd (run evs initial)))"
  by (rule run_distinct) (simp add: initial_def)

text \<open>
  Claim C8. A user-count message for the number \<open>n\<close> has the type \<open>userCount\<close> and
  carries \<open>n\<close> in its field \<open>count\<close>. The registry is updated before the count is taken:
  the number in the message broadcast by the connection handler is the number of members
  of the registry with the new socket in it, the number in the one broadcast by the close
  handler is the number of members without the closed socket. (The registry never holds
  a socket twice, in any state a run reaches.)
\<close>

theorem user_count_is_registry_size:
  assumes "distinct (clients s)"
  shows "clients (snd (on_connection W ws s)) = Set_add ws (clients s)
     \<and> set (Set_add ws (clients s)) = insert ws (set (clients s))
     \<and> trace (snd (on_connection W ws s)) =
         trace s @
         (if drawingHistory s = [] then []
          else [Stringify (history_msg (drawingHistory s)),
                Send ws (JSON_stringify W (history_msg (drawingHistory s)))]) @
         (if drawingHistory s \<noteq> [] \<and> readyState W ws = CONNECTING then []
          else broadcast_trace W (userCount_msg (card (insert ws (set (clients s)))))
                 (Set_add ws (clients s)))
     \<and> get (userCount_msg n) ''type'' = Inr (JStr ''userCount'')
     \<and> get (userCount_msg n) ''count'' = Inr (JNum (int n))
     \<and> clients (snd (on_close W ws s)) = Set_delete ws (clients s)
     \<and> set (Set_delete ws (clients s)) = set (clients s) - {ws}
     \<and> trace (snd (on_close W ws s)) =
         trace s @
         broadcast_trace W (userCount_msg (card (set (clients s) - {ws})))
           (Set_delete ws (clients s))"
proof -
  have a': "set (Set_add ws (clients s)) = insert ws (set (clients s))"
    by (auto simp: Set_add_def)
  have d': "set (Set_delete ws (clients s)) = set (clients s) - {ws}"
    by (auto simp: Set_delete_def)
  have a: "length (Set_add ws (clients s)) = card (insert ws (set (clients s)))"
    using distinct_card [OF distinct_Set_add [OF assms, of ws]] by (simp add: a')
  have d: "length (Set_delete ws (clients s)) = card (set (clients s) - {ws})"
    using distinct_card [OF distinct_Set_delete [OF assms, of ws]] by (simp add: d')
  have g: "get (userCount_msg n) ''type'' = Inr (JStr ''userCount'')"
    "get (userCount_msg n) ''count'' = Inr (JNum (int n))"
    by (simp_all add: userCount_msg_def)
  show ?thesis
    unfolding a [symmetric] d [symmetric] a' d'
    by (simp add: on_connection_eq on_close_eq g)
qed

theorem user_count_is_registry_size_witness:
  "distinct (clients s12)
   \<and> trace (snd (on_connection W0 3 s12)) =
       [Stringify (history_msg [seg 1 ''a'']), Send 3 (history_msg [seg 1 ''a'']),
        Stringify (userCount_msg 3), Send 1 (userCount_msg 3), Send 2 (userCount_msg 3),
        Send 3 (userCount_msg 3)]
   \<and> trace (snd (on_close W0 1 s12)) = [Stringify (userCount_msg 1), Send 2 (userCount_msg 1)]"
proof -
  have h: "distinct (clients s12)"
    by (simp add: s12_def)
  show ?thesis
    using h user_count_is_registry_size [OF h, of W0 3 3]
      user_count_is_registry_size [OF h, of W0 1 1]
    by (simp add: s12_def W0_def Set_add_def Set_delete_def broadcast_trace_def userCount_msg_def
          is_open_def)
qed


section \<open>Properties of the client\<close>

text \<open>A draw message that carries no event makes \<open>handleMessage\<close> throw; nothing is drawn.\<close>

lemma draw_without_data_throws:
  "handleMessage (JObj [(''type'', JStr ''draw'')]) cl = (Some TypeError, cl)"
  by (simp add: handleMessage_def)




end
